theory Spec2Isabelle
  imports
    Complex_Main
    "HOL-Library.Sublist"
    "HOL-Library.AList"
    "HOL-Library.Char_ord"
    "HOL-Library.List_Lexorder"
    "HOL-Library.Product_Lexorder"
begin

section \<open>Failures\<close>

text \<open>
  The pipeline ends abnormally either through \<open>sys.exit\<close> with a sentinel string
  (\<open>ERR_READS\<close>, \<open>ERR_IMPORT\<close>, ...) or through an uncaught Python exception. Both are
  values of \<open>failure\<close>; a function that can end the process returns \<open>failure + 'a\<close>.
\<close>

datatype py_exception = IndexError | ValueError | ZeroDivisionError | IOError | ApplicationError

datatype failure = SysExit string | Raised py_exception

section \<open>String and list primitives of the host language\<close>

text \<open>\<open>s.split(sep)\<close> for a one-character separator: n occurrences give n + 1 pieces.\<close>

fun py_split :: "char \<Rightarrow> string \<Rightarrow> string list" where
  "py_split sep [] = [[]]"
| "py_split sep (x # xs) =
     (if x = sep then [] # py_split sep xs
      else (case py_split sep xs of [] \<Rightarrow> [[x]] | w # ws \<Rightarrow> (x # w) # ws))"

text \<open>\<open>xs[n]\<close> for a non-negative literal index: out of range raises \<open>IndexError\<close>.\<close>

definition py_nth :: "'a list \<Rightarrow> nat \<Rightarrow> failure + 'a" where
  "py_nth xs n = (if n < length xs then Inr (xs ! n) else Inl (Raised IndexError))"





text \<open>
  \<open>max(d, key=d.get)\<close> walks the keys once and keeps the first one whose value is
  strictly greater than every value before it. The walk is over the items of the
  dictionary, each key compared by its own value.
\<close>

fun py_max_by :: "('a \<Rightarrow> int) \<Rightarrow> 'a \<Rightarrow> 'a list \<Rightarrow> 'a" where
  "py_max_by key best [] = best"
| "py_max_by key best (x # xs) = py_max_by key (if key x > key best then x else best) xs"

text \<open>
  A frequency dictionary is an association list with one entry per key, in order of
  first insertion. (The host's dictionaries hand out their keys in an order of their
  own; the properties proved below of the maximum and of the sorted report do not
  depend on the order of the entries.) \<open>d[key] += 1\<close> for a known key and
  \<open>d[key] = 1\<close> for a new one:
\<close>

definition bump :: "string \<Rightarrow> (string \<times> int) list \<Rightarrow> (string \<times> int) list" where
  "bump key freqs =
     (case map_of freqs key of
        Some n \<Rightarrow> AList.update key (n + 1) freqs
      | None \<Rightarrow> AList.update key 1 freqs)"

definition tab :: char where
  "tab = CHR 0x09"

text \<open>A row of a tab-separated table, for writing example tables.\<close>

fun tsv_row :: "string list \<Rightarrow> string" where
  "tsv_row [] = []"
| "tsv_row [f] = f"
| "tsv_row (f # g # fs) = f @ tab # tsv_row (g # fs)"

section \<open>Sample pairing (\<open>list_fastqs\<close>)\<close>






section \<open>Reference selection (\<open>choose_reference\<close>)\<close>

text \<open>
  The loop over the lines of the similarity-search table: comment lines are skipped,
  column 1 of every other line is the accession. A line with no tab has no column 1.
\<close>

fun count_accessions ::
  "(string \<times> int) list \<Rightarrow> string list \<Rightarrow> failure + (string \<times> int) list" where
  "count_accessions accession_freqs [] = Inr accession_freqs"
| "count_accessions accession_freqs (line # lines) =
     (if prefix ''#'' line then count_accessions accession_freqs lines
      else (case py_nth (py_split tab line) 1 of
              Inl e \<Rightarrow> Inl e
            | Inr accession \<Rightarrow> count_accessions (bump accession accession_freqs) lines))"

text \<open>The result is \<open>(reference_found, top_accession)\<close>; \<open>None\<close> is Python's \<open>None\<close>.\<close>

definition choose_reference :: "string list \<Rightarrow> failure + (bool \<times> string option)" where
  "choose_reference blast_out =
     (case count_accessions [] blast_out of
        Inl e \<Rightarrow> Inl e
      | Inr accession_freqs \<Rightarrow>
          (case accession_freqs of
             [] \<Rightarrow> Inr (False, None)
           | kv # kvs \<Rightarrow> Inr (True, Some (fst (py_max_by snd kv kvs)))))"

text \<open>The hit list of a table: the accessions of its rows, comment lines excluded.\<close>

definition data_lines :: "string list \<Rightarrow> string list" where
  "data_lines blast_out = filter (\<lambda>line. \<not> prefix ''#'' line) blast_out"

definition hit_list :: "string list \<Rightarrow> string list" where
  "hit_list blast_out = map (\<lambda>line. py_split tab line ! 1) (data_lines blast_out)"

definition well_formed_rows :: "string list \<Rightarrow> bool" where
  "well_formed_rows blast_out = list_all (\<lambda>line. 1 < length (py_split tab line)) (data_lines blast_out)"

section \<open>Genotyping (\<open>genotype\<close>)\<close>

text \<open>\<open>accession.split('_')[1].split('.')[0]\<close>.\<close>

definition genotype_of :: "string \<Rightarrow> failure + string" where
  "genotype_of accession =
     (case py_nth (py_split CHR ''_'' accession) 1 of
        Inl e \<Rightarrow> Inl e
      | Inr field \<Rightarrow> py_nth (py_split CHR ''.'' field) 0)"

fun count_genotypes ::
  "(string \<times> int) list \<Rightarrow> string list \<Rightarrow> failure + (string \<times> int) list" where
  "count_genotypes genotype_freqs [] = Inr genotype_freqs"
| "count_genotypes genotype_freqs (line # lines) =
     (if prefix ''#'' line then count_genotypes genotype_freqs lines
      else (case py_nth (py_split tab line) 1 of
              Inl e \<Rightarrow> Inl e
            | Inr accession \<Rightarrow>
                (case genotype_of accession of
                   Inl e \<Rightarrow> Inl e
                 | Inr g \<Rightarrow> count_genotypes (bump g genotype_freqs) lines)))"

text \<open>
  The score \<open>round(count / n_reads * 1e4, 2)\<close> is computed in binary floating point.
  The model takes it as the parameter \<open>per_mille\<close> (count and read total to score), so
  that what is proved of the ranking holds for the host's arithmetic whatever it
  rounds to. \<open>per_mille_exact\<close> is the same formula in exact arithmetic, rounding half
  away from zero, for evaluating examples. The read total is a quarter of a line
  count; dividing by a zero total raises \<open>ZeroDivisionError\<close>.

  The result is the top genotype and the ranked report, one entry
  \<open>(genotype, score, count)\<close> per line written to the genotypes file.
\<close>

definition per_mille_exact :: "int \<Rightarrow> rat \<Rightarrow> rat" where
  "per_mille_exact n n_reads =
     (let x = of_int n / n_reads * 10000 * 100
      in (if 0 \<le> x then of_int \<lfloor>x + 1 / 2\<rfloor> else - of_int \<lfloor>- x + 1 / 2\<rfloor>) / 100)"

definition rank_genotypes :: "(string \<times> 'r::linorder) list \<Rightarrow> (string \<times> 'r) list" where
  "rank_genotypes genotype_props_pc = rev (sort_key (\<lambda>(k, v). (v, k)) genotype_props_pc)"

definition freq_of :: "(string \<times> int) list \<Rightarrow> string \<Rightarrow> int" where
  "freq_of freqs key = (case map_of freqs key of Some n \<Rightarrow> n | None \<Rightarrow> 0)"

definition genotype ::
  "(int \<Rightarrow> rat \<Rightarrow> 'r::linorder) \<Rightarrow> rat \<Rightarrow> string list
   \<Rightarrow> failure + (string option \<times> (string \<times> 'r \<times> int) list)" where
  "genotype per_mille n_reads blast_out =
     (case count_genotypes [] blast_out of
        Inl e \<Rightarrow> Inl e
      | Inr genotype_freqs \<Rightarrow>
          (let top_genotype =
                 (case genotype_freqs of
                    [] \<Rightarrow> None
                  | kv # kvs \<Rightarrow> Some (fst (py_max_by snd kv kvs)))
           in if genotype_freqs \<noteq> [] \<and> n_reads = 0 then Inl (Raised ZeroDivisionError)
              else
                (let genotype_props_pc =
                       map (\<lambda>(k, n). (k, per_mille n n_reads)) genotype_freqs
                 in Inr (top_genotype,
                      map (\<lambda>(g, proportion). (g, proportion, freq_of genotype_freqs g))
                        (rank_genotypes genotype_props_pc)))))"

section \<open>Parameter sweep (\<open>normalise\<close>, \<open>assemble\<close>)\<close>

record norm_perm =
  norm_k :: string
  norm_c :: string

record asm_perm =
  asm_k :: string
  asm_c :: string
  asm_uc :: int

definition norm_perms :: "string \<Rightarrow> string \<Rightarrow> norm_perm list" where
  "norm_perms norm_k_list norm_c_list =
     (let ks = py_split CHR '','' norm_k_list;
          cs = py_split CHR '','' norm_c_list
      in concat (map (\<lambda>k. map (\<lambda>c. \<lparr>norm_k = k, norm_c = c\<rparr>) cs) ks))"

definition asm_perms :: "norm_perm list \<Rightarrow> bool \<Rightarrow> bool \<Rightarrow> asm_perm list" where
  "asm_perms perms asm_untrusted_contigs reference_found =
     (if reference_found \<and> asm_untrusted_contigs then
        concat (map (\<lambda>p. map (\<lambda>uc. \<lparr>asm_k = norm_k p, asm_c = norm_c p, asm_uc = uc\<rparr>) [1, 0]) perms)
      else
        concat (map (\<lambda>p. map (\<lambda>uc. \<lparr>asm_k = norm_k p, asm_c = norm_c p, asm_uc = uc\<rparr>) [0]) perms))"


section \<open>Coverage analysis (\<open>assess_coverage\<close>)\<close>

text \<open>
  The pileup file is read line by line; column 1 is the site, column 3 its depth.
  The model takes the table as the list of parsed \<open>(site, depth)\<close> rows, in file
  order. Python integers are unbounded, hence \<open>int\<close>.
\<close>

definition min_depth :: int where
  "min_depth = 1"

definition uncovered_sites :: "(int \<times> int) list \<Rightarrow> int list" where
  "uncovered_sites pileup = map fst (filter (\<lambda>(site, depth). depth < min_depth) pileup)"

text \<open>The four variables the run-length loop of \<open>assess_coverage\<close> updates.\<close>

record cov_state =
  uncovered_region :: int
  uncovered_regions :: "int list"
  last_uncovered_site :: int
  largest_uncovered_region :: int

definition cov_init :: cov_state where
  "cov_init = \<lparr>uncovered_region = 0, uncovered_regions = [],
               last_uncovered_site = 0, largest_uncovered_region = 0\<rparr>"

text \<open>One iteration of \<open>for uncovered_site in uncovered_sites\<close>.\<close>

definition cov_step :: "cov_state \<Rightarrow> int \<Rightarrow> cov_state" where
  "cov_step s uncovered_site =
     (if uncovered_site = last_uncovered_site s + 1 then
        (let r = uncovered_region s + 1 in
         s\<lparr>uncovered_region := r,
           largest_uncovered_region :=
             (if r > largest_uncovered_region s then r else largest_uncovered_region s),
           last_uncovered_site := uncovered_site\<rparr>)
      else
        s\<lparr>uncovered_regions :=
             (if uncovered_region s > 0 then uncovered_regions s @ [uncovered_region s]
              else uncovered_regions s),
           uncovered_region := 1,
           last_uncovered_site := uncovered_site\<rparr>)"

fun cov_loop :: "cov_state \<Rightarrow> int list \<Rightarrow> cov_state" where
  "cov_loop s [] = s"
| "cov_loop s (site # sites) = cov_loop (cov_step s site) sites"

text \<open>
  What \<open>assess_coverage\<close> has computed when it starts printing: the uncovered sites,
  the collected region lengths and the largest region. (The printed verdict compares
  against a floating-point product and is left out.)
\<close>

record coverage_report =
  cr_sites :: "int list"
  cr_regions :: "int list"
  cr_largest :: int

definition assess_coverage :: "(int \<times> int) list \<Rightarrow> coverage_report" where
  "assess_coverage pileup =
     (let sites = uncovered_sites pileup;
          s = cov_loop cov_init sites
      in \<lparr>cr_sites = sites, cr_regions = uncovered_regions s,
          cr_largest = largest_uncovered_region s\<rparr>)"

section \<open>The coordinator (\<open>main\<close>)\<close>

text \<open>
  Everything the run reads from outside is a field of \<open>world\<close>, indexed by the sample
  number \<open>i\<close> of the loop in \<open>main\<close> (and by the position of a command inside a stage):
  the directory listing, the exit status of every external command, the integer that
  \<open>int(...)\<close> reads from the line counter's output (\<open>None\<close> when it raises
  \<open>ValueError\<close>), whether the search index exists, the lines of the similarity-search
  table, the parsed pileup (or the exception that reading it raises), and the
  trimmer's diagnostic text.
\<close>

record world =
  w_listing :: "string list"
  w_import_status :: "nat \<Rightarrow> int"
  w_count_lines :: "nat \<Rightarrow> int option"
  w_count_status :: "nat \<Rightarrow> int"
  w_sample_status :: "nat \<Rightarrow> int"
  w_db_indexed :: "nat \<Rightarrow> bool"
  w_makeblastdb_status :: "nat \<Rightarrow> int"
  w_blastn_status :: "nat \<Rightarrow> int"
  w_blast_tsv :: "nat \<Rightarrow> string list"
  w_map_status :: "nat \<Rightarrow> nat \<Rightarrow> int"
  w_pileup :: "nat \<Rightarrow> failure + (int \<times> int) list"
  w_trim_status :: "nat \<Rightarrow> int"
  w_trim_stderr :: "nat \<Rightarrow> string"
  w_trim_pp_status :: "nat \<Rightarrow> int"
  w_norm_status :: "nat \<Rightarrow> nat \<Rightarrow> int"
  w_asm_status :: "nat \<Rightarrow> nat \<Rightarrow> int"
  w_eval_status :: "nat \<Rightarrow> int"
  w_report_status :: int

text \<open>The command-line options that decide what runs.\<close>

record options =
  opt_in_dir :: string
  opt_fwd_reads_sig :: string
  opt_rev_reads_sig :: string
  opt_norm_k_list :: string
  opt_norm_c_list :: string
  opt_asm_untrusted_contigs :: bool

text \<open>
  The observable behaviour of a run is its trace: for each sample number, the stage
  functions called (\<open>Enter\<close>), the external commands run with their position inside
  the stage and their exit status (\<open>Cmd\<close>), and the warning of \<open>choose_reference\<close>.
  \<open>remap_reads\<close> is \<open>pass\<close> and leaves nothing.
\<close>

datatype stage =
    Import_reads | Count_reads | Sample_reads | Blast_references | Choose_reference
  | Extract_reference | Genotype | Map_reads | Assess_coverage | Trim | Normalise
  | Assemble | Evaluate_assemblies | Report

datatype action = Enter stage | Cmd stage nat int | Warning

type_synonym event = "nat \<times> action"

type_synonym 'a run = "event list \<times> (failure + 'a)"

definition ret :: "'a \<Rightarrow> 'a run" where
  "ret x = ([], Inr x)"

text \<open>Sequencing: a failure ends the process, nothing after it runs.\<close>

definition bind_run :: "'a run \<Rightarrow> ('a \<Rightarrow> 'b run) \<Rightarrow> 'b run" where
  "bind_run m f =
     (case m of
        (tr, Inl e) \<Rightarrow> (tr, Inl e)
      | (tr, Inr x) \<Rightarrow> (case f x of (tr', r) \<Rightarrow> (tr @ tr', r)))"

text \<open>
  A loop that runs one command per list element and leaves with \<open>sys.exit(code)\<close> at
  the first non-zero status (\<open>map_reads\<close>, \<open>normalise\<close>, \<open>assemble\<close>).
\<close>

fun run_cmds :: "nat \<Rightarrow> stage \<Rightarrow> string \<Rightarrow> (nat \<Rightarrow> int) \<Rightarrow> nat list \<Rightarrow> unit run" where
  "run_cmds i s code status [] = ([], Inr ())"
| "run_cmds i s code status (k # ks) =
     (if status k = 0 then
        (case run_cmds i s code status ks of (tr, r) \<Rightarrow> ((i, Cmd s k (status k)) # tr, r))
      else ([(i, Cmd s k (status k))], Inl (SysExit code)))"

definition import_reads :: "world \<Rightarrow> nat \<Rightarrow> unit run" where
  "import_reads w i =
     ([(i, Enter Import_reads), (i, Cmd Import_reads 0 (w_import_status w i))],
      if w_import_status w i = 0 then Inr () else Inl (SysExit ''ERR_IMPORT''))"

text \<open>
  \<open>count_reads\<close> converts the output to a number before it looks at the status, so
  an output that is no number raises \<open>ValueError\<close> first. The read total is a
  quarter of the line count (true division).
\<close>

definition count_reads :: "world \<Rightarrow> nat \<Rightarrow> rat run" where
  "count_reads w i =
     ([(i, Enter Count_reads), (i, Cmd Count_reads 0 (w_count_status w i))],
      case w_count_lines w i of
        None \<Rightarrow> Inl (Raised ValueError)
      | Some n \<Rightarrow>
          if w_count_status w i = 0 then Inr (of_int n / 4) else Inl (SysExit ''ERR_COUNT''))"

definition sample_reads :: "world \<Rightarrow> nat \<Rightarrow> unit run" where
  "sample_reads w i =
     ([(i, Enter Sample_reads), (i, Cmd Sample_reads 0 (w_sample_status w i))],
      if w_sample_status w i = 0 then Inr () else Inl (SysExit ''ERR_SAMPLE''))"

text \<open>
  \<open>blast_references\<close> builds the index when it is missing and ignores that command's
  status. The search itself goes through the Biopython command wrapper, which raises
  \<open>ApplicationError\<close> on a non-zero return code.
\<close>

definition blast_references :: "world \<Rightarrow> nat \<Rightarrow> unit run" where
  "blast_references w i =
     ([(i, Enter Blast_references)]
        @ (if w_db_indexed w i then [] else [(i, Cmd Blast_references 0 (w_makeblastdb_status w i))])
        @ [(i, Cmd Blast_references 1 (w_blastn_status w i))],
      if w_blastn_status w i = 0 then Inr () else Inl (Raised ApplicationError))"

definition choose_reference_stage :: "world \<Rightarrow> nat \<Rightarrow> (bool \<times> string option) run" where
  "choose_reference_stage w i =
     (case choose_reference (w_blast_tsv w i) of
        Inl e \<Rightarrow> ([(i, Enter Choose_reference)], Inl e)
      | Inr (reference_found, top_accession) \<Rightarrow>
          ([(i, Enter Choose_reference)] @ (if reference_found then [] else [(i, Warning)]),
           Inr (reference_found, top_accession)))"

definition extract_reference :: "nat \<Rightarrow> unit run" where
  "extract_reference i = ([(i, Enter Extract_reference)], Inr ())"

definition genotype_stage :: "world \<Rightarrow> rat \<Rightarrow> nat \<Rightarrow> string option run" where
  "genotype_stage w n_reads i =
     ([(i, Enter Genotype)],
      case genotype per_mille_exact n_reads (w_blast_tsv w i) of
        Inl e \<Rightarrow> Inl e
      | Inr (top_genotype, ranked) \<Rightarrow> Inr top_genotype)"

text \<open>
  \<open>map_reads\<close> runs its six commands in turn and leaves at the first non-zero status.
  (\<open>main\<close> passes the sample number in the position of the thread count, so the
  commands name the files of sample 1 whatever the sample; the statuses they return
  are the world's, indexed by the sample being processed.)
\<close>

definition map_reads :: "world \<Rightarrow> nat \<Rightarrow> unit run" where
  "map_reads w i =
     bind_run ([(i, Enter Map_reads)], Inr ())
       (\<lambda>_. run_cmds i Map_reads ''ERR_MAP'' (w_map_status w i) [0..<6])"

definition assess_coverage_stage :: "world \<Rightarrow> nat \<Rightarrow> coverage_report run" where
  "assess_coverage_stage w i =
     ([(i, Enter Assess_coverage)],
      case w_pileup w i of Inl e \<Rightarrow> Inl e | Inr table \<Rightarrow> Inr (assess_coverage table))"

text \<open>
  \<open>trim\<close> runs the trimmer, takes line 25 of its diagnostic text (\<open>IndexError\<close> when
  there are fewer lines), runs the post-processing command without looking at its
  status, and only then checks the trimmer's status.
\<close>

definition trim :: "world \<Rightarrow> nat \<Rightarrow> unit run" where
  "trim w i =
     (if length (py_split CHR 0x0A (w_trim_stderr w i)) \<le> 25 then
        ([(i, Enter Trim), (i, Cmd Trim 0 (w_trim_status w i))], Inl (Raised IndexError))
      else
        ([(i, Enter Trim), (i, Cmd Trim 0 (w_trim_status w i)),
          (i, Cmd Trim 1 (w_trim_pp_status w i))],
         if w_trim_status w i = 0 then Inr () else Inl (SysExit ''ERR_TRIM'')))"

definition normalise :: "world \<Rightarrow> options \<Rightarrow> nat \<Rightarrow> norm_perm list run" where
  "normalise w opts i =
     (let perms = norm_perms (opt_norm_k_list opts) (opt_norm_c_list opts)
      in bind_run ([(i, Enter Normalise)], Inr ())
           (\<lambda>_. bind_run
                  (run_cmds i Normalise ''ERR_NORM'' (w_norm_status w i) [0..<length perms])
                  (\<lambda>_. ret perms)))"

definition assemble :: "world \<Rightarrow> options \<Rightarrow> norm_perm list \<Rightarrow> bool \<Rightarrow> nat \<Rightarrow> unit run" where
  "assemble w opts perms reference_found i =
     (let aperms = asm_perms perms (opt_asm_untrusted_contigs opts) reference_found
      in bind_run ([(i, Enter Assemble)], Inr ())
           (\<lambda>_. run_cmds i Assemble ''ERR_ASM'' (w_asm_status w i) [0..<length aperms]))"

definition evaluate_assemblies :: "world \<Rightarrow> nat \<Rightarrow> unit run" where
  "evaluate_assemblies w i =
     ([(i, Enter Evaluate_assemblies), (i, Cmd Evaluate_assemblies 0 (w_eval_status w i))],
      Inr ())"


text \<open>The four stages that depend on the reference, run only when one was found.\<close>

definition reference_stages :: "world \<Rightarrow> rat \<Rightarrow> nat \<Rightarrow> unit run" where
  "reference_stages w n_reads i =
     bind_run (extract_reference i) (\<lambda>_.
     bind_run (genotype_stage w n_reads i) (\<lambda>_.
     bind_run (map_reads w i) (\<lambda>_.
     bind_run (assess_coverage_stage w i) (\<lambda>_. ret ()))))"

text \<open>The body of the loop over the samples in \<open>main\<close>.\<close>

definition run_sample :: "world \<Rightarrow> options \<Rightarrow> nat \<Rightarrow> unit run" where
  "run_sample w opts i =
     bind_run (import_reads w i) (\<lambda>_.
     bind_run (count_reads w i) (\<lambda>n_reads.
     bind_run (sample_reads w i) (\<lambda>_.
     bind_run (blast_references w i) (\<lambda>_.
     bind_run (choose_reference_stage w i) (\<lambda>(reference_found, top_accession).
     bind_run (if reference_found then reference_stages w n_reads i else ret ()) (\<lambda>_.
     bind_run (trim w i) (\<lambda>_.
     bind_run (normalise w opts i) (\<lambda>perms.
     bind_run (assemble w opts perms reference_found i) (\<lambda>_.
     evaluate_assemblies w i)))))))))"





definition stages_entered :: "event list \<Rightarrow> stage list" where
  "stages_entered tr = concat (map (\<lambda>(i, a). case a of Enter s \<Rightarrow> [s] | _ \<Rightarrow> []) tr)"

text \<open>The stage an action belongs to; the warning belongs to none.\<close>

fun stage_of :: "action \<Rightarrow> stage option" where
  "stage_of (Enter s) = Some s"
| "stage_of (Cmd s k st) = Some s"
| "stage_of Warning = None"

text \<open>
  \<open>halts_at code e tail r\<close>: if the event \<open>e\<close> occurs in the run \<open>r\<close>, the run ends with
  \<open>sys.exit(code)\<close> and whatever follows the first occurrence of \<open>e\<close> is among \<open>tail\<close>.
  \<open>all_events P r\<close>: every event of the run satisfies \<open>P\<close>.
\<close>

definition halts_at :: "string \<Rightarrow> event \<Rightarrow> event list \<Rightarrow> 'a run \<Rightarrow> bool" where
  "halts_at code e tail r =
     (e \<in> set (fst r) \<longrightarrow>
        snd r = Inl (SysExit code)
        \<and> set (tl (dropWhile (\<lambda>x. x \<noteq> e) (fst r))) \<subseteq> set tail)"

definition all_events :: "(event \<Rightarrow> bool) \<Rightarrow> 'a run \<Rightarrow> bool" where
  "all_events P r = (\<forall>e \<in> set (fst r). P e)"

text \<open>
  An example run: three samples; every command succeeds; the search finds no hit for
  sample 1 and one hit for the others; the search index is built during sample 1.
\<close>

definition quiet_world :: world where
  "quiet_world =
     \<lparr>w_listing = [''a_F.fastq'', ''a_R.fastq'', ''b_F.fastq'', ''b_R.fastq'',
                   ''c_F.fastq'', ''c_R.fastq''],
      w_import_status = (\<lambda>i. 0),
      w_count_lines = (\<lambda>i. Some 400),
      w_count_status = (\<lambda>i. 0),
      w_sample_status = (\<lambda>i. 0),
      w_db_indexed = (\<lambda>i. 1 < i),
      w_makeblastdb_status = (\<lambda>i. 0),
      w_blastn_status = (\<lambda>i. 0),
      w_blast_tsv = (\<lambda>i. if i = 1 then [''# no hits'']
                          else [''# hits'', tsv_row [''read1'', ''HQ_1a.1'', ''99.0'']]),
      w_map_status = (\<lambda>i k. 0),
      w_pileup = (\<lambda>i. Inr [(1, 0), (2, 3)]),
      w_trim_status = (\<lambda>i. 0),
      w_trim_stderr = (\<lambda>i. replicate 25 (CHR 0x0A)),
      w_trim_pp_status = (\<lambda>i. 0),
      w_norm_status = (\<lambda>i k. 0),
      w_asm_status = (\<lambda>i k. 0),
      w_eval_status = (\<lambda>i. 0),
      w_report_status = 0\<rparr>"

definition example_options :: options where
  "example_options =
     \<lparr>opt_in_dir = ''in'', opt_fwd_reads_sig = ''_F'', opt_rev_reads_sig = ''_R'',
      opt_norm_k_list = ''21,33'', opt_norm_c_list = ''5'',
      opt_asm_untrusted_contigs = True\<rparr>"

section \<open>Properties of the coverage analysis\<close>

lemma cov_loop_append: "cov_loop s (xs @ ys) = cov_loop (cov_loop s xs) ys"
  by (induction xs arbitrary: s) simp_all

text \<open>
  Loop invariant: the collected regions plus the region still being counted account
  for every site consumed so far. The region being counted is never appended after
  the loop, so the collected lengths alone fall short.
\<close>

lemma cov_step_sum:
  "0 \<le> uncovered_region s \<Longrightarrow>
   sum_list (uncovered_regions (cov_step s x)) + uncovered_region (cov_step s x)
     = sum_list (uncovered_regions s) + uncovered_region s + 1
   \<and> 0 \<le> uncovered_region (cov_step s x)"
  by (simp add: cov_step_def Let_def)

lemma cov_loop_sum:
  "0 \<le> uncovered_region s \<Longrightarrow>
   sum_list (uncovered_regions (cov_loop s xs)) + uncovered_region (cov_loop s xs)
     = sum_list (uncovered_regions s) + uncovered_region s + int (length xs)"
proof (induction xs arbitrary: s)
  case Nil
  then show ?case by simp
next
  case (Cons x xs)
  from cov_step_sum[OF Cons.prems, of x]
  have st: "sum_list (uncovered_regions (cov_step s x)) + uncovered_region (cov_step s x)
            = sum_list (uncovered_regions s) + uncovered_region s + 1"
    and nn: "0 \<le> uncovered_region (cov_step s x)" by simp_all
  from Cons.IH[OF nn] st show ?case by simp
qed

text \<open>
  C3 (code evaluated at the claim's input). On the depth table
  \<open>[(1,0),(2,0),(3,5),(4,0)]\<close> the analyzer finds the uncovered sites 1, 2, 4 and the
  largest region 2, but the list of region lengths it has collected is \<open>[2]\<close>: the
  region of site 4 is still in the counter when the loop ends and is never appended.
\<close>

theorem assess_coverage_example:
  "assess_coverage [(1,0),(2,0),(3,5),(4,0)]
     = \<lparr>cr_sites = [1,2,4], cr_regions = [2], cr_largest = 2\<rparr>"
  by (simp add: assess_coverage_def uncovered_sites_def min_depth_def cov_init_def
      cov_step_def Let_def)

text \<open>
  C4 (code evaluated at a failing input). With the single uncovered site of the depth
  table \<open>[(1,0)]\<close> no region length is collected at all, so the lengths sum to 0 while
  one site is uncovered.
\<close>

theorem assess_coverage_sum_fails:
  "sum_list (cr_regions (assess_coverage [(1,0)])) = 0
   \<and> length (cr_sites (assess_coverage [(1,0)])) = 1"
  by (simp add: assess_coverage_def uncovered_sites_def min_depth_def cov_init_def
      cov_step_def Let_def)

text \<open>
  The largest region is only raised where a site extends the region before it.
\<close>

lemma cov_loop_largest_zero:
  "largest_uncovered_region s = 0 \<Longrightarrow>
   (xs \<noteq> [] \<Longrightarrow> hd xs \<noteq> last_uncovered_site s + 1) \<Longrightarrow>
   (\<forall>n. Suc n < length xs \<longrightarrow> xs ! Suc n \<noteq> xs ! n + 1) \<Longrightarrow>
   largest_uncovered_region (cov_loop s xs) = 0"
proof (induction xs arbitrary: s)
  case Nil
  then show ?case by simp
next
  case (Cons x xs)
  from Cons.prems(2) have ne: "x \<noteq> last_uncovered_site s + 1" by simp
  have l0: "largest_uncovered_region (cov_step s x) = 0"
    using ne Cons.prems(1) by (simp add: cov_step_def)
  have last: "last_uncovered_site (cov_step s x) = x"
    using ne by (simp add: cov_step_def)
  have hd': "xs \<noteq> [] \<Longrightarrow> hd xs \<noteq> last_uncovered_site (cov_step s x) + 1"
  proof -
    assume "xs \<noteq> []"
    then have "0 < length xs" by simp
    with Cons.prems(3)[rule_format, of 0] have "xs ! 0 \<noteq> x + 1" by simp
    with \<open>xs \<noteq> []\<close> show ?thesis by (simp add: last hd_conv_nth)
  qed
  have adj: "\<forall>n. Suc n < length xs \<longrightarrow> xs ! Suc n \<noteq> xs ! n + 1"
  proof (intro allI impI)
    fix n assume "Suc n < length xs"
    with Cons.prems(3)[rule_format, of "Suc n"] show "xs ! Suc n \<noteq> xs ! n + 1" by simp
  qed
  from Cons.IH[OF l0 hd' adj] show ?case by simp
qed

text \<open>
  C10. When uncovered sites exist, the first of them is not position 1 and none is
  one greater than the uncovered site before it, the largest uncovered region is
  reported as 0.
\<close>

theorem largest_region_zero_when_isolated:
  assumes "uncovered_sites pileup \<noteq> []"
    and "hd (uncovered_sites pileup) \<noteq> 1"
    and "\<forall>n. Suc n < length (uncovered_sites pileup) \<longrightarrow>
           uncovered_sites pileup ! Suc n \<noteq> uncovered_sites pileup ! n + 1"
  shows "cr_largest (assess_coverage pileup) = 0"
proof -
  have "largest_uncovered_region (cov_loop cov_init (uncovered_sites pileup)) = 0"
    using assms by (intro cov_loop_largest_zero) (simp_all add: cov_init_def)
  then show ?thesis by (simp add: assess_coverage_def Let_def)
qed

theorem largest_region_zero_when_isolated_witness:
  "uncovered_sites [(2,0),(3,4),(4,0),(5,1),(7,0)] = [2,4,7]
   \<and> cr_largest (assess_coverage [(2,0),(3,4),(4,0),(5,1),(7,0)]) = 0"
proof -
  have us: "uncovered_sites [(2,0),(3,4),(4,0),(5,1),(7,0)] = [2,4,7]"
    by (simp add: uncovered_sites_def min_depth_def)
  have adj: "\<forall>n. Suc n < length (uncovered_sites [(2,0),(3,4),(4,0),(5,1),(7,0)]) \<longrightarrow>
           uncovered_sites [(2,0),(3,4),(4,0),(5,1),(7,0)] ! Suc n
             \<noteq> uncovered_sites [(2,0),(3,4),(4,0),(5,1),(7,0)] ! n + 1"
    unfolding us by (auto simp: less_Suc_eq nth_Cons')
  show ?thesis
    using largest_region_zero_when_isolated[of "[(2,0),(3,4),(4,0),(5,1),(7,0)]", OF _ _ adj] us
    by simp
qed

section \<open>Properties of the parameter sweep\<close>

lemma length_product_list:
  "length (concat (map (\<lambda>x. map (f x) ys) xs)) = length xs * length ys"
  by (induction xs) simp_all

lemma nth_product_list:
  "a < length xs \<Longrightarrow> b < length ys \<Longrightarrow>
   concat (map (\<lambda>x. map (f x) ys) xs) ! (a * length ys + b) = f (xs ! a) (ys ! b)"
proof (induction xs arbitrary: a)
  case Nil
  then show ?case by simp
next
  case (Cons x xs)
  show ?case
  proof (cases a)
    case 0
    with Cons.prems show ?thesis by (simp add: nth_append)
  next
    case (Suc a')
    with Cons.prems have "a' < length xs" by simp
    from Cons.IH[OF this Cons.prems(2)] Suc show ?thesis
      by (simp add: nth_append add.assoc)
  qed
qed

lemma length_concat_const:
  "(\<And>x. x \<in> set xs \<Longrightarrow> length (f x) = n) \<Longrightarrow> length (concat (map f xs)) = length xs * n"
  by (induction xs) simp_all

text \<open>
  C5. The normalisation plan is the product of the k-list and the c-list, k outermost
  and c innermost: it has \<open>|ks| * |cs|\<close> entries and entry \<open>a * |cs| + b\<close> pairs the
  a-th k with the b-th c. The assembly plan has two entries per normalisation pair
  (toggle 1, then 0) when a reference was found and untrusted contigs were requested,
  and otherwise one entry per pair, with toggle 0 whatever the flag. For the k-list
  \<open>21,33\<close> and the c-list \<open>5\<close> the normalisation plan is \<open>[(21,5),(33,5)]\<close> and the
  assembly plan has 4 entries when found and requested, 2 otherwise.
\<close>

theorem sweep_plans:
  "length (norm_perms kl cl)
     = length (py_split CHR '','' kl) * length (py_split CHR '','' cl)
   \<and> (\<forall>a b. a < length (py_split CHR '','' kl) \<and> b < length (py_split CHR '','' cl) \<longrightarrow>
         norm_perms kl cl ! (a * length (py_split CHR '','' cl) + b)
           = \<lparr>norm_k = py_split CHR '','' kl ! a, norm_c = py_split CHR '','' cl ! b\<rparr>)
   \<and> length (asm_perms perms requested found)
       = length perms * (if found \<and> requested then 2 else 1)
   \<and> (\<not> (found \<and> requested) \<longrightarrow> (\<forall>p \<in> set (asm_perms perms requested found). asm_uc p = 0))
   \<and> (found \<and> requested \<longrightarrow>
        (\<forall>n < length perms.
           asm_perms perms requested found ! (2 * n)
             = \<lparr>asm_k = norm_k (perms ! n), asm_c = norm_c (perms ! n), asm_uc = 1\<rparr>
         \<and> asm_perms perms requested found ! (2 * n + 1)
             = \<lparr>asm_k = norm_k (perms ! n), asm_c = norm_c (perms ! n), asm_uc = 0\<rparr>))
   \<and> norm_perms ''21,33'' ''5''
       = [\<lparr>norm_k = ''21'', norm_c = ''5''\<rparr>, \<lparr>norm_k = ''33'', norm_c = ''5''\<rparr>]
   \<and> length (asm_perms (norm_perms ''21,33'' ''5'') True True) = 4
   \<and> length (asm_perms (norm_perms ''21,33'' ''5'') requested False) = 2
   \<and> length (asm_perms (norm_perms ''21,33'' ''5'') False found) = 2"
proof (intro conjI)
  show "length (norm_perms kl cl)
     = length (py_split CHR '','' kl) * length (py_split CHR '','' cl)"
    by (simp add: norm_perms_def Let_def length_product_list)
  show "\<forall>a b. a < length (py_split CHR '','' kl) \<and> b < length (py_split CHR '','' cl) \<longrightarrow>
         norm_perms kl cl ! (a * length (py_split CHR '','' cl) + b)
           = \<lparr>norm_k = py_split CHR '','' kl ! a, norm_c = py_split CHR '','' cl ! b\<rparr>"
    by (simp add: norm_perms_def Let_def nth_product_list)
  show "length (asm_perms perms requested found)
       = length perms * (if found \<and> requested then 2 else 1)"
    by (simp add: asm_perms_def length_concat_const)
  show "\<not> (found \<and> requested) \<longrightarrow> (\<forall>p \<in> set (asm_perms perms requested found). asm_uc p = 0)"
    by (auto simp: asm_perms_def)
  show "found \<and> requested \<longrightarrow>
        (\<forall>n < length perms.
           asm_perms perms requested found ! (2 * n)
             = \<lparr>asm_k = norm_k (perms ! n), asm_c = norm_c (perms ! n), asm_uc = 1\<rparr>
         \<and> asm_perms perms requested found ! (2 * n + 1)
             = \<lparr>asm_k = norm_k (perms ! n), asm_c = norm_c (perms ! n), asm_uc = 0\<rparr>)"
  proof (intro impI allI conjI)
    fix n assume fr: "found \<and> requested" and n: "n < length perms"
    have "concat (map (\<lambda>p. map (\<lambda>uc. \<lparr>asm_k = norm_k p, asm_c = norm_c p, asm_uc = uc\<rparr>) [1, 0]) perms)
            ! (n * length [1, 0::int] + 0)
          = \<lparr>asm_k = norm_k (perms ! n), asm_c = norm_c (perms ! n), asm_uc = [1, 0] ! 0\<rparr>"
      using n by (intro nth_product_list) simp_all
    then show "asm_perms perms requested found ! (2 * n)
             = \<lparr>asm_k = norm_k (perms ! n), asm_c = norm_c (perms ! n), asm_uc = 1\<rparr>"
      using fr by (simp add: asm_perms_def mult_2)
    have "concat (map (\<lambda>p. map (\<lambda>uc. \<lparr>asm_k = norm_k p, asm_c = norm_c p, asm_uc = uc\<rparr>) [1, 0]) perms)
            ! (n * length [1, 0::int] + 1)
          = \<lparr>asm_k = norm_k (perms ! n), asm_c = norm_c (perms ! n), asm_uc = [1, 0] ! 1\<rparr>"
      using n by (intro nth_product_list) simp_all
    then show "asm_perms perms requested found ! (2 * n + 1)
             = \<lparr>asm_k = norm_k (perms ! n), asm_c = norm_c (perms ! n), asm_uc = 0\<rparr>"
      using fr by (simp add: asm_perms_def mult_2)
  qed
  show np: "norm_perms ''21,33'' ''5''
       = [\<lparr>norm_k = ''21'', norm_c = ''5''\<rparr>, \<lparr>norm_k = ''33'', norm_c = ''5''\<rparr>]"
    by (simp add: norm_perms_def Let_def)
  show "length (asm_perms (norm_perms ''21,33'' ''5'') True True) = 4"
    by (simp add: np asm_perms_def)
  show "length (asm_perms (norm_perms ''21,33'' ''5'') requested False) = 2"
    by (simp add: np asm_perms_def)
  show "length (asm_perms (norm_perms ''21,33'' ''5'') False found) = 2"
    by (simp add: np asm_perms_def)
qed

theorem sweep_plans_witness:
  "norm_perms ''21,33'' ''5,7'' ! 3 = \<lparr>norm_k = ''33'', norm_c = ''7''\<rparr>
   \<and> length (asm_perms (norm_perms ''21,33'' ''5,7'') True False) = 4
   \<and> asm_uc (asm_perms (norm_perms ''21,33'' ''5,7'') True False ! 3) = 0
   \<and> asm_perms (norm_perms ''21,33'' ''5,7'') True True ! 3
       = \<lparr>asm_k = ''21'', asm_c = ''7'', asm_uc = 0\<rparr>"
proof -
  have ks: "py_split CHR '','' ''21,33'' = [''21'', ''33'']" by simp
  have cs: "py_split CHR '','' ''5,7'' = [''5'', ''7'']" by simp
  note t = sweep_plans[of "''21,33''" "''5,7''" "norm_perms ''21,33'' ''5,7''" True False]
  note u = sweep_plans[of "''21,33''" "''5,7''" "norm_perms ''21,33'' ''5,7''" True True]
  from t have "length (norm_perms ''21,33'' ''5,7'')
     = length (py_split CHR '','' ''21,33'') * length (py_split CHR '','' ''5,7'')"
    by blast
  then have len: "length (norm_perms ''21,33'' ''5,7'') = 4" unfolding ks cs by simp
  from t have nth: "\<forall>a b. a < length (py_split CHR '','' ''21,33'')
          \<and> b < length (py_split CHR '','' ''5,7'') \<longrightarrow>
         norm_perms ''21,33'' ''5,7'' ! (a * length (py_split CHR '','' ''5,7'') + b)
           = \<lparr>norm_k = py_split CHR '','' ''21,33'' ! a, norm_c = py_split CHR '','' ''5,7'' ! b\<rparr>"
    by blast
  from nth[rule_format, of 1 1]
  have a: "norm_perms ''21,33'' ''5,7'' ! 3 = \<lparr>norm_k = ''33'', norm_c = ''7''\<rparr>"
    unfolding ks cs by (simp add: eval_nat_numeral)
  from nth[rule_format, of 0 1]
  have p1: "norm_perms ''21,33'' ''5,7'' ! Suc 0 = \<lparr>norm_k = ''21'', norm_c = ''7''\<rparr>"
    unfolding ks cs by simp
  from t have "length (asm_perms (norm_perms ''21,33'' ''5,7'') True False)
       = length (norm_perms ''21,33'' ''5,7'') * (if False \<and> True then 2 else 1)"
    by blast
  with len have b: "length (asm_perms (norm_perms ''21,33'' ''5,7'') True False) = 4"
    by simp
  from t have "\<forall>p \<in> set (asm_perms (norm_perms ''21,33'' ''5,7'') True False). asm_uc p = 0"
    by blast
  with b have c: "asm_uc (asm_perms (norm_perms ''21,33'' ''5,7'') True False ! 3) = 0"
    by simp
  from u have "\<forall>n < length (norm_perms ''21,33'' ''5,7'').
       asm_perms (norm_perms ''21,33'' ''5,7'') True True ! (2 * n + 1)
         = \<lparr>asm_k = norm_k (norm_perms ''21,33'' ''5,7'' ! n),
            asm_c = norm_c (norm_perms ''21,33'' ''5,7'' ! n), asm_uc = 0\<rparr>"
    by blast
  from this[rule_format, of 1] len
  have d: "asm_perms (norm_perms ''21,33'' ''5,7'') True True ! 3
       = \<lparr>asm_k = ''21'', asm_c = ''7'', asm_uc = 0\<rparr>"
    by (simp add: p1)
  from a b c d show ?thesis by simp
qed

section \<open>Properties of genotype parsing\<close>

lemma py_split_not_Nil: "py_split c s \<noteq> []"
  by (induction s) (simp_all split: list.splits)

lemma length_py_split: "length (py_split c s) = Suc (count_list s c)"
proof (induction s)
  case Nil
  then show ?case by simp
next
  case (Cons x s)
  then show ?case by (cases "py_split c s") (simp_all add: py_split_not_Nil)
qed

lemma py_split_unfold:
  "py_split c s = takeWhile (\<lambda>x. x \<noteq> c) s
     # (case dropWhile (\<lambda>x. x \<noteq> c) s of [] \<Rightarrow> [] | _ # rest \<Rightarrow> py_split c rest)"
proof (induction s)
  case Nil
  then show ?case by simp
next
  case (Cons x s)
  show ?case
  proof (cases "x = c")
    case True
    then show ?thesis by simp
  next
    case False
    then show ?thesis using Cons by (cases "py_split c s") simp_all
  qed
qed

lemma py_split_nth0: "py_split c s ! 0 = takeWhile (\<lambda>x. x \<noteq> c) s"
  by (subst py_split_unfold) simp

lemma py_split_nth1:
  "c \<in> set s \<Longrightarrow>
   py_split c s ! 1 = takeWhile (\<lambda>x. x \<noteq> c) (tl (dropWhile (\<lambda>x. x \<noteq> c) s))"
proof -
  assume "c \<in> set s"
  then have "dropWhile (\<lambda>x. x \<noteq> c) s \<noteq> []" by (simp add: dropWhile_eq_Nil_conv)
  then obtain y rest where d: "dropWhile (\<lambda>x. x \<noteq> c) s = y # rest" by (cases "dropWhile (\<lambda>x. x \<noteq> c) s") auto
  have "py_split c s ! 1 = py_split c rest ! 0"
    by (subst py_split_unfold) (simp add: d)
  then show ?thesis by (simp add: py_split_nth0 d)
qed

text \<open>
  C8 (as amended). Genotype parsing of an accession completes without error exactly
  when the accession contains an underscore; the label is then the text after the
  first underscore up to the next underscore or period, whatever it is (possibly
  empty). An accession with no underscore raises \<open>IndexError\<close>.
\<close>

theorem genotype_of_total_iff_underscore:
  "(CHR ''_'' \<in> set accession \<longrightarrow>
      genotype_of accession
        = Inr (takeWhile (\<lambda>x. x \<noteq> CHR ''.'')
                (takeWhile (\<lambda>x. x \<noteq> CHR ''_'')
                  (tl (dropWhile (\<lambda>x. x \<noteq> CHR ''_'') accession)))))
   \<and> (CHR ''_'' \<notin> set accession \<longrightarrow> genotype_of accession = Inl (Raised IndexError))"
proof (intro conjI impI)
  assume u: "CHR ''_'' \<in> set accession"
  then have "count_list accession CHR ''_'' \<noteq> 0" by (simp add: count_list_0_iff)
  then have "1 < length (py_split CHR ''_'' accession)" by (simp add: length_py_split)
  then show "genotype_of accession
        = Inr (takeWhile (\<lambda>x. x \<noteq> CHR ''.'')
                (takeWhile (\<lambda>x. x \<noteq> CHR ''_'')
                  (tl (dropWhile (\<lambda>x. x \<noteq> CHR ''_'') accession))))"
    using py_split_nth1[OF u]
    by (simp add: genotype_of_def py_nth_def length_py_split py_split_nth0)
next
  assume "CHR ''_'' \<notin> set accession"
  then have "count_list accession CHR ''_'' = 0" by (simp add: count_list_0_iff)
  then show "genotype_of accession = Inl (Raised IndexError)"
    by (simp add: genotype_of_def py_nth_def length_py_split)
qed

theorem genotype_of_total_iff_underscore_witness:
  "genotype_of ''HQ_1a.x'' = Inr ''1a'' \<and> genotype_of ''HQ1a.x'' = Inl (Raised IndexError)
   \<and> genotype_of ''_'' = Inr []"
  using genotype_of_total_iff_underscore[of "''HQ_1a.x''"]
    genotype_of_total_iff_underscore[of "''HQ1a.x''"]
    genotype_of_total_iff_underscore[of "''_''"]
  by simp

text \<open>
  C8 (counterexample to the claim as stated). The accession \<open>ABC\<close> has no underscore:
  parsing it raises \<open>IndexError\<close>, and so does \<open>genotype\<close> on a table with that hit.
\<close>

theorem genotype_no_underscore_raises:
  "genotype_of ''ABC'' = Inl (Raised IndexError)
   \<and> genotype per_mille_exact 10 [tsv_row [''read1'', ''ABC'', ''99.0'']]
       = Inl (Raised IndexError)"
  by (simp add: genotype_of_def genotype_def py_nth_def tab_def)


section \<open>Properties of reference selection\<close>

text \<open>Frequency dictionaries: one entry per key, counting the occurrences.\<close>

lemma freq_of_bump:
  "freq_of (bump k freqs) a = freq_of freqs a + (if a = k then 1 else 0)"
  by (auto simp: freq_of_def bump_def update_conv' split: option.splits)

lemma distinct_bump: "distinct (map fst freqs) \<Longrightarrow> distinct (map fst (bump k freqs))"
  by (simp add: bump_def distinct_update split: option.splits)

lemma keys_bump: "fst ` set (bump k freqs) = insert k (fst ` set freqs)"
  by (simp add: bump_def dom_update split: option.splits)

lemma freq_of_Nil: "freq_of [] a = 0"
  by (simp add: freq_of_def)

lemma freq_of_fold_bump:
  "freq_of (fold bump hs freqs) a = freq_of freqs a + int (count_list hs a)"
  by (induction hs arbitrary: freqs) (simp_all add: freq_of_bump)

lemma distinct_fold_bump:
  "distinct (map fst freqs) \<Longrightarrow> distinct (map fst (fold bump hs freqs))"
  by (induction hs arbitrary: freqs) (simp_all add: distinct_bump)

lemma keys_fold_bump: "fst ` set (fold bump hs freqs) = set hs \<union> fst ` set freqs"
  by (induction hs arbitrary: freqs) (auto simp: keys_bump)

lemma freq_of_entry:
  "distinct (map fst freqs) \<Longrightarrow> (k, n) \<in> set freqs \<Longrightarrow> freq_of freqs k = n"
  by (simp add: freq_of_def)

lemma py_max_by_mem: "py_max_by key best xs \<in> set (best # xs)"
  by (induction xs arbitrary: best) (auto split: if_splits)

lemma py_max_by_best: "key best \<le> key (py_max_by key best xs)"
proof (induction xs arbitrary: best)
  case Nil
  then show ?case by simp
next
  case (Cons y ys)
  have "key best \<le> key (if key y > key best then y else best)" by simp
  also have "\<dots> \<le> key (py_max_by key (if key y > key best then y else best) ys)"
    by (rule Cons.IH)
  finally show ?case by simp
qed

lemma py_max_by_ge: "x \<in> set (best # xs) \<Longrightarrow> key x \<le> key (py_max_by key best xs)"
proof (induction xs arbitrary: best)
  case Nil
  then show ?case by simp
next
  case (Cons y ys)
  let ?b = "if key y > key best then y else best"
  show ?case
  proof (cases "x \<in> set ys")
    case True
    then show ?thesis using Cons.IH[of ?b] by simp
  next
    case False
    with Cons.prems have "x = best \<or> x = y" by auto
    then have "key x \<le> key ?b" by auto
    also have "\<dots> \<le> key (py_max_by key ?b ys)" by (rule py_max_by_best)
    finally show ?thesis by simp
  qed
qed

lemma count_accessions_hits:
  "well_formed_rows blast_out \<Longrightarrow>
   count_accessions freqs blast_out = Inr (fold bump (hit_list blast_out) freqs)"
proof (induction blast_out arbitrary: freqs)
  case Nil
  then show ?case by (simp add: hit_list_def data_lines_def)
next
  case (Cons line lines)
  show ?case
  proof (cases "prefix ''#'' line")
    case True
    with Cons show ?thesis
      by (simp add: hit_list_def data_lines_def well_formed_rows_def)
  next
    case False
    with Cons.prems have wf: "well_formed_rows lines" and len: "1 < length (py_split tab line)"
      by (simp_all add: well_formed_rows_def data_lines_def)
    from False len Cons.IH[OF wf] show ?thesis
      by (simp add: hit_list_def data_lines_def py_nth_def)
  qed
qed

text \<open>
  C6. For a table whose rows all have an accession column and whose hit list is not
  empty, \<open>choose_reference\<close> reports that a reference was found and returns an
  accession of the hit list that no other accession outnumbers. (Which of several
  accessions with the same maximal count is returned depends on the order of the
  dictionary's keys; \<open>py_max_by_mem\<close> and \<open>py_max_by_ge\<close> hold for any order.)
\<close>

theorem choose_reference_max_frequency:
  assumes "well_formed_rows blast_out" and "hit_list blast_out \<noteq> []"
  shows "\<exists>a. choose_reference blast_out = Inr (True, Some a)
           \<and> a \<in> set (hit_list blast_out)
           \<and> (\<forall>b. count_list (hit_list blast_out) b \<le> count_list (hit_list blast_out) a)"
proof -
  define freqs where "freqs = fold bump (hit_list blast_out) []"
  have cnt: "count_accessions [] blast_out = Inr freqs"
    using count_accessions_hits[OF assms(1)] by (simp add: freqs_def)
  have dist: "distinct (map fst freqs)"
    unfolding freqs_def by (rule distinct_fold_bump) simp
  have keys: "fst ` set freqs = set (hit_list blast_out)"
    unfolding freqs_def by (simp add: keys_fold_bump)
  have fr: "freq_of freqs b = int (count_list (hit_list blast_out) b)" for b
    unfolding freqs_def by (simp add: freq_of_fold_bump freq_of_Nil)
  from keys assms(2) have "freqs \<noteq> []" by auto
  then obtain kv kvs where f: "freqs = kv # kvs" by (cases freqs) auto
  define top where "top = py_max_by snd kv kvs"
  have top_in: "top \<in> set freqs" unfolding top_def f by (rule py_max_by_mem)
  have top_ge: "snd x \<le> snd top" if "x \<in> set freqs" for x
    using that unfolding top_def f by (rule py_max_by_ge)
  have snd_eq: "snd x = freq_of freqs (fst x)" if "x \<in> set freqs" for x
    using freq_of_entry[OF dist, of "fst x" "snd x"] that by simp
  have res: "choose_reference blast_out = Inr (True, Some (fst top))"
    by (simp add: choose_reference_def cnt f top_def)
  have mem: "fst top \<in> set (hit_list blast_out)"
    using top_in keys by force
  have max: "count_list (hit_list blast_out) b \<le> count_list (hit_list blast_out) (fst top)" for b
  proof (cases "b \<in> set (hit_list blast_out)")
    case True
    with keys obtain x where x: "x \<in> set freqs" "fst x = b" by force
    from top_ge[OF x(1)] snd_eq[OF x(1)] snd_eq[OF top_in] x(2)
    have "freq_of freqs b \<le> freq_of freqs (fst top)" by simp
    then show ?thesis by (simp add: fr)
  next
    case False
    then show ?thesis by (simp add: count_list_0_iff)
  qed
  from res mem max show ?thesis by blast
qed

text \<open>For the hit list \<open>[A, A, B, A, B]\<close> the winner is \<open>A\<close>.\<close>

lemma example_rows:
  "hit_list (map (\<lambda>a. tsv_row [''read'', a, ''98.7'']) [''A'', ''A'', ''B'', ''A'', ''B''])
     = [''A'', ''A'', ''B'', ''A'', ''B'']"
  "well_formed_rows (map (\<lambda>a. tsv_row [''read'', a, ''98.7'']) [''A'', ''A'', ''B'', ''A'', ''B''])"
  by (simp_all add: hit_list_def data_lines_def well_formed_rows_def tab_def)

theorem choose_reference_max_frequency_witness:
  "choose_reference
     (map (\<lambda>a. tsv_row [''read'', a, ''98.7'']) [''A'', ''A'', ''B'', ''A'', ''B''])
   = Inr (True, Some ''A'')"
proof -
  let ?t = "map (\<lambda>a. tsv_row [''read'', a, ''98.7'']) [''A'', ''A'', ''B'', ''A'', ''B'']"
  have ne: "hit_list ?t \<noteq> []" unfolding example_rows(1) by simp
  from choose_reference_max_frequency[OF example_rows(2) ne]
  obtain a where a: "choose_reference ?t = Inr (True, Some a)"
    "a \<in> set (hit_list ?t)"
    "\<forall>b. count_list (hit_list ?t) b \<le> count_list (hit_list ?t) a"
    by blast
  from a(3)[rule_format, of "''A''"] have "a \<noteq> ''B''"
    unfolding example_rows(1) by auto
  with a(2) have "a = ''A''" unfolding example_rows(1) by auto
  with a(1) show ?thesis by simp
qed


section \<open>Properties of the genotype report\<close>











section \<open>Properties of sample pairing\<close>













section \<open>Properties of the coordinator\<close>

subsection \<open>Runs that end at a failing command\<close>

lemma fst_bind_run:
  "fst (bind_run m f) = fst m @ (case snd m of Inl e \<Rightarrow> [] | Inr x \<Rightarrow> fst (f x))"
  by (cases m) (auto simp: bind_run_def split: sum.splits prod.splits)

lemma snd_bind_run:
  "snd (bind_run m f) = (case snd m of Inl e \<Rightarrow> Inl e | Inr x \<Rightarrow> snd (f x))"
  by (cases m) (auto simp: bind_run_def split: sum.splits prod.splits)


lemma halts_at_notin: "e \<notin> set (fst r) \<Longrightarrow> halts_at code e tail r"
  by (simp add: halts_at_def)





















subsection \<open>Events of a sample carry its number, in the order of the samples\<close>

lemma all_events_bind:
  "all_events P m \<Longrightarrow> (\<And>x. snd m = Inr x \<Longrightarrow> all_events P (f x)) \<Longrightarrow>
   all_events P (bind_run m f)"
  by (cases "snd m") (auto simp: all_events_def fst_bind_run)

lemma all_events_run_cmds:
  "(\<And>k st. P (i, Cmd s k st)) \<Longrightarrow> all_events P (run_cmds i s code status ks)"
  by (induction ks) (auto simp: all_events_def split: prod.splits)

lemma all_events_ret: "all_events P (ret x)"
  by (simp add: all_events_def ret_def)

lemma all_events_import:
  "(\<And>a. stage_of a = Some Import_reads \<Longrightarrow> P (j, a)) \<Longrightarrow> all_events P (import_reads w j)"
  by (simp add: all_events_def import_reads_def)

lemma all_events_count:
  "(\<And>a. stage_of a = Some Count_reads \<Longrightarrow> P (j, a)) \<Longrightarrow> all_events P (count_reads w j)"
  by (simp add: all_events_def count_reads_def)

lemma all_events_sample:
  "(\<And>a. stage_of a = Some Sample_reads \<Longrightarrow> P (j, a)) \<Longrightarrow> all_events P (sample_reads w j)"
  by (simp add: all_events_def sample_reads_def)

lemma all_events_blast:
  "(\<And>a. stage_of a = Some Blast_references \<Longrightarrow> P (j, a)) \<Longrightarrow>
   all_events P (blast_references w j)"
  by (simp add: all_events_def blast_references_def)

lemma all_events_choose:
  "(\<And>a. stage_of a = Some Choose_reference \<Longrightarrow> P (j, a)) \<Longrightarrow> P (j, Warning) \<Longrightarrow>
   all_events P (choose_reference_stage w j)"
  by (auto simp: all_events_def choose_reference_stage_def split: sum.splits)


lemma all_events_trim:
  "(\<And>a. stage_of a = Some Trim \<Longrightarrow> P (j, a)) \<Longrightarrow> all_events P (trim w j)"
  by (simp add: all_events_def trim_def)

lemma all_events_normalise:
  "(\<And>a. stage_of a = Some Normalise \<Longrightarrow> P (j, a)) \<Longrightarrow> all_events P (normalise w opts j)"
  unfolding normalise_def Let_def
  by (intro all_events_bind all_events_run_cmds all_events_ret) (simp_all add: all_events_def)

lemma all_events_assemble:
  "(\<And>a. stage_of a = Some Assemble \<Longrightarrow> P (j, a)) \<Longrightarrow>
   all_events P (assemble w opts perms found j)"
  unfolding assemble_def Let_def
  by (intro all_events_bind all_events_run_cmds) (simp_all add: all_events_def)

lemma all_events_evaluate:
  "(\<And>a. stage_of a = Some Evaluate_assemblies \<Longrightarrow> P (j, a)) \<Longrightarrow>
   all_events P (evaluate_assemblies w j)"
  by (simp add: all_events_def evaluate_assemblies_def)









subsection \<open>Samples without a reference\<close>

lemma choose_reference_no_hits:
  assumes "hit_list blast_out = []"
  shows "choose_reference blast_out = Inr (False, None)"
proof -
  from assms have d: "data_lines blast_out = []" by (simp add: hit_list_def)
  then have "well_formed_rows blast_out" by (simp add: well_formed_rows_def)
  from count_accessions_hits[OF this, of "[]"] assms
  show ?thesis by (simp add: choose_reference_def)
qed

lemma run_cmds_ok:
  "\<forall>k \<in> set ks. status k = 0 \<Longrightarrow>
   run_cmds i s code status ks = (map (\<lambda>k. (i, Cmd s k 0)) ks, Inr ())"
  by (induction ks) simp_all

lemma stages_entered_append:
  "stages_entered (xs @ ys) = stages_entered xs @ stages_entered ys"
  by (simp add: stages_entered_def)

lemma stages_entered_cmds: "stages_entered (map (\<lambda>k. (i, Cmd s k st)) ks) = []"
  by (induction ks) (simp_all add: stages_entered_def)

lemma stages_entered_Cons:
  "stages_entered ((i, Enter s) # tr) = s # stages_entered tr"
  "stages_entered ((i, Cmd s k st) # tr) = stages_entered tr"
  "stages_entered ((i, Warning) # tr) = stages_entered tr"
  "stages_entered [] = []"
  by (simp_all add: stages_entered_def)

lemma no_reference_events:
  assumes nf: "choose_reference (w_blast_tsv w j) = Inr (False, None)"
    and P: "\<And>a. stage_of a \<notin> {Some Extract_reference, Some Genotype, Some Map_reads,
                              Some Assess_coverage} \<Longrightarrow> P (j, a)"
  shows "all_events P (run_sample w opts j)"
  unfolding run_sample_def
  apply (rule all_events_bind, rule all_events_import, rule P, simp)
  apply (rule all_events_bind, rule all_events_count, rule P, simp)
  apply (rule all_events_bind, rule all_events_sample, rule P, simp)
  apply (rule all_events_bind, rule all_events_blast, rule P, simp)
  apply (rule all_events_bind, rule all_events_choose, rule P, simp, rule P, simp)
  apply (clarsimp simp: choose_reference_stage_def nf)
  apply (rule all_events_bind, rule all_events_ret)
  apply (rule all_events_bind, rule all_events_trim, rule P, simp)
  apply (rule all_events_bind, rule all_events_normalise, rule P, simp)
  apply (rule all_events_bind, rule all_events_assemble, rule P, simp)
  apply (rule all_events_evaluate, rule P, simp)
  done

text \<open>
  C2. For a sample whose hit list is empty, the selection stage returns "not found"
  with a warning and no failure; no event of reference extraction, genotyping,
  alignment or coverage analysis occurs in the sample's run; when the stages before
  the selection succeed, the warning is logged and the trim stage is entered; and when
  no stage of the sample fails, the stages entered are exactly import, count, sample,
  search, selection, trim, normalise, assemble and evaluate, and the sample ends
  normally.
\<close>

theorem not_found_skips_reference_stages:
  assumes "hit_list (w_blast_tsv w i) = []"
  shows "choose_reference_stage w i
           = ([(i, Enter Choose_reference), (i, Warning)], Inr (False, None))
    \<and> (\<forall>(j, a) \<in> set (fst (run_sample w opts i)).
          stage_of a \<notin> {Some Extract_reference, Some Genotype, Some Map_reads,
                        Some Assess_coverage})
    \<and> (w_import_status w i = 0 \<and> w_count_lines w i \<noteq> None \<and> w_count_status w i = 0
        \<and> w_sample_status w i = 0 \<and> w_blastn_status w i = 0 \<longrightarrow>
         (i, Warning) \<in> set (fst (run_sample w opts i))
         \<and> (i, Enter Trim) \<in> set (fst (run_sample w opts i)))
    \<and> (w_import_status w i = 0 \<and> w_count_lines w i \<noteq> None \<and> w_count_status w i = 0
        \<and> w_sample_status w i = 0 \<and> w_blastn_status w i = 0
        \<and> 25 < length (py_split CHR 0x0A (w_trim_stderr w i)) \<and> w_trim_status w i = 0
        \<and> (\<forall>k. w_norm_status w i k = 0) \<and> (\<forall>k. w_asm_status w i k = 0) \<longrightarrow>
         stages_entered (fst (run_sample w opts i))
           = [Import_reads, Count_reads, Sample_reads, Blast_references, Choose_reference,
              Trim, Normalise, Assemble, Evaluate_assemblies]
         \<and> snd (run_sample w opts i) = Inr ())"
proof (intro conjI impI)
  have nf: "choose_reference (w_blast_tsv w i) = Inr (False, None)"
    by (rule choose_reference_no_hits[OF assms])
  show cs: "choose_reference_stage w i
           = ([(i, Enter Choose_reference), (i, Warning)], Inr (False, None))"
    by (simp add: choose_reference_stage_def nf)
  have "all_events (\<lambda>e. stage_of (snd e) \<notin> {Some Extract_reference, Some Genotype,
            Some Map_reads, Some Assess_coverage}) (run_sample w opts i)"
    by (rule no_reference_events[OF nf]) simp
  then show "\<forall>(j, a) \<in> set (fst (run_sample w opts i)).
          stage_of a \<notin> {Some Extract_reference, Some Genotype, Some Map_reads,
                        Some Assess_coverage}"
    by (auto simp: all_events_def)
  {
    assume ok: "w_import_status w i = 0 \<and> w_count_lines w i \<noteq> None \<and> w_count_status w i = 0
        \<and> w_sample_status w i = 0 \<and> w_blastn_status w i = 0"
    then obtain n where n: "w_count_lines w i = Some n" by auto
    from ok n show "(i, Warning) \<in> set (fst (run_sample w opts i))"
      by (simp add: run_sample_def fst_bind_run snd_bind_run import_reads_def count_reads_def
          sample_reads_def blast_references_def cs)
    from ok n show "(i, Enter Trim) \<in> set (fst (run_sample w opts i))"
      by (simp add: run_sample_def fst_bind_run snd_bind_run import_reads_def count_reads_def
          sample_reads_def blast_references_def cs ret_def trim_def)
  }
  {
    assume ok: "w_import_status w i = 0 \<and> w_count_lines w i \<noteq> None \<and> w_count_status w i = 0
        \<and> w_sample_status w i = 0 \<and> w_blastn_status w i = 0
        \<and> 25 < length (py_split CHR 0x0A (w_trim_stderr w i)) \<and> w_trim_status w i = 0
        \<and> (\<forall>k. w_norm_status w i k = 0) \<and> (\<forall>k. w_asm_status w i k = 0)"
    then obtain n where n: "w_count_lines w i = Some n" by auto
    have norm: "run_cmds i Normalise ''ERR_NORM'' (w_norm_status w i) ks
                  = (map (\<lambda>k. (i, Cmd Normalise k 0)) ks, Inr ())" for ks
      using ok by (intro run_cmds_ok) simp
    have asm: "run_cmds i Assemble ''ERR_ASM'' (w_asm_status w i) ks
                  = (map (\<lambda>k. (i, Cmd Assemble k 0)) ks, Inr ())" for ks
      using ok by (intro run_cmds_ok) simp
    from ok n show "stages_entered (fst (run_sample w opts i))
           = [Import_reads, Count_reads, Sample_reads, Blast_references, Choose_reference,
              Trim, Normalise, Assemble, Evaluate_assemblies]"
      by (simp add: run_sample_def fst_bind_run snd_bind_run import_reads_def count_reads_def
          sample_reads_def blast_references_def cs ret_def trim_def normalise_def assemble_def
          evaluate_assemblies_def norm asm Let_def stages_entered_append stages_entered_cmds
          stages_entered_Cons)
    from ok n show "snd (run_sample w opts i) = Inr ()"
      by (simp add: run_sample_def fst_bind_run snd_bind_run import_reads_def count_reads_def
          sample_reads_def blast_references_def cs ret_def trim_def normalise_def assemble_def
          evaluate_assemblies_def norm asm Let_def)
  }
qed

lemma quiet_no_hits: "hit_list (w_blast_tsv quiet_world 1) = []"
  by code_simp

lemma quiet_stderr: "length (py_split CHR 0x0A (w_trim_stderr quiet_world 1)) = 26"
  by code_simp

theorem not_found_skips_reference_stages_witness:
  "choose_reference_stage quiet_world 1
     = ([(1, Enter Choose_reference), (1, Warning)], Inr (False, None))
   \<and> (1, Enter Map_reads) \<notin> set (fst (run_sample quiet_world example_options 1))
   \<and> (1, Enter Trim) \<in> set (fst (run_sample quiet_world example_options 1))
   \<and> stages_entered (fst (run_sample quiet_world example_options 1))
       = [Import_reads, Count_reads, Sample_reads, Blast_references, Choose_reference,
          Trim, Normalise, Assemble, Evaluate_assemblies]
   \<and> snd (run_sample quiet_world example_options 1) = Inr ()"
proof -
  note t = not_found_skips_reference_stages[OF quiet_no_hits, of example_options]
  have ok: "w_import_status quiet_world 1 = 0 \<and> w_count_lines quiet_world 1 \<noteq> None
        \<and> w_count_status quiet_world 1 = 0
        \<and> w_sample_status quiet_world 1 = 0 \<and> w_blastn_status quiet_world 1 = 0
        \<and> 25 < length (py_split CHR 0x0A (w_trim_stderr quiet_world 1))
        \<and> w_trim_status quiet_world 1 = 0
        \<and> (\<forall>k. w_norm_status quiet_world 1 k = 0) \<and> (\<forall>k. w_asm_status quiet_world 1 k = 0)"
    unfolding quiet_stderr by (simp add: quiet_world_def)
  from t have a: "choose_reference_stage quiet_world 1
     = ([(1, Enter Choose_reference), (1, Warning)], Inr (False, None))" by blast
  from t have "\<forall>(j, a) \<in> set (fst (run_sample quiet_world example_options 1)).
          stage_of a \<notin> {Some Extract_reference, Some Genotype, Some Map_reads,
                        Some Assess_coverage}" by blast
  then have b: "(1, Enter Map_reads) \<notin> set (fst (run_sample quiet_world example_options 1))"
    by fastforce
  from t ok have c: "(1, Enter Trim) \<in> set (fst (run_sample quiet_world example_options 1))"
    by blast
  from t ok have d: "stages_entered (fst (run_sample quiet_world example_options 1))
       = [Import_reads, Count_reads, Sample_reads, Blast_references, Choose_reference,
          Trim, Normalise, Assemble, Evaluate_assemblies]
     \<and> snd (run_sample quiet_world example_options 1) = Inr ()"
    by blast
  from a b c d show ?thesis by blast
qed

end
